theory Spec2Isabelle
  imports Complex_Main "HOL-Library.Sublist"
begin

section \<open>Strings\<close>

text \<open>
  A JavaScript string is modelled as a \<^typ>\<open>string\<close>: a list of code units below 256
  (the Latin-1 range). On that range \<open>String.prototype.toLowerCase\<close> maps \<open>A\<close>..\<open>Z\<close>
  and the accented capitals \<open>0xC0\<close>..\<open>0xDE\<close> (the multiplication sign \<open>0xD7\<close> apart)
  to the code unit 32 higher and leaves every other code unit alone.
\<close>

definition toLowerChar :: "char \<Rightarrow> char" where
  "toLowerChar c =
     (let n = (of_char c :: nat)
      in if (65 \<le> n \<and> n \<le> 90) \<or> (192 \<le> n \<and> n \<le> 222 \<and> n \<noteq> 215)
         then char_of (n + 32) else c)"

definition toLowerCase :: "string \<Rightarrow> string" where
  "toLowerCase s = map toLowerChar s"

text \<open>\<open>s.includes(t)\<close> (\<open>includes\<close> is an Isabelle keyword): \<open>t\<close> occurs in \<open>s\<close> as a contiguous run.\<close>

fun str_includes :: "string \<Rightarrow> string \<Rightarrow> bool" where
  "str_includes [] t = (t = [])"
| "str_includes (c # s) t = (prefix t (c # s) \<or> str_includes s t)"

section \<open>Icons and daytime\<close>

text \<open>The icon components of \<open>react-icons/wi\<close> that the component renders.\<close>

datatype icon =
    WiDaySunny | WiNightClear | WiDayCloudy | WiNightAltCloudy | WiCloud | WiCloudy
  | WiShowers | WiRain | WiThunderstorm | WiSnow | WiFog | WiDust

text \<open>
  \<open>getWeatherIcon\<close>: the \<open>switch (true)\<close> takes the first \<open>case\<close> whose test is true,
  so it is a chain of conditionals in the order of the cases.
\<close>

definition getWeatherIcon :: "string \<Rightarrow> bool \<Rightarrow> icon" where
  "getWeatherIcon description isDay =
     (let lowerDesc = toLowerCase description
      in if str_includes lowerDesc ''clear'' then (if isDay then WiDaySunny else WiNightClear)
         else if str_includes lowerDesc ''few clouds''
           then (if isDay then WiDayCloudy else WiNightAltCloudy)
         else if str_includes lowerDesc ''scattered clouds'' then WiCloud
         else if str_includes lowerDesc ''broken clouds'' \<or> str_includes lowerDesc ''overcast''
           then WiCloudy
         else if str_includes lowerDesc ''shower'' \<or> str_includes lowerDesc ''drizzle''
           then WiShowers
         else if str_includes lowerDesc ''rain'' then WiRain
         else if str_includes lowerDesc ''thunderstorm'' then WiThunderstorm
         else if str_includes lowerDesc ''snow'' \<or> str_includes lowerDesc ''sleet'' then WiSnow
         else if str_includes lowerDesc ''mist'' \<or> str_includes lowerDesc ''fog'' then WiFog
         else if str_includes lowerDesc ''dust'' \<or> str_includes lowerDesc ''sand'' then WiDust
         else WiDaySunny)"

text \<open>
  \<open>isDay\<close> compares timestamps, which the provider gives as whole seconds since the
  epoch.
\<close>

definition isDay :: "int \<Rightarrow> int \<Rightarrow> int \<Rightarrow> bool" where
  "isDay current sunrise sunset = (current > sunrise \<and> current < sunset)"

subsection \<open>The icon rules as the specification words them\<close>

datatype category =
    Clear | FewClouds | ScatteredClouds | Overcast | ShowerDrizzle | Rain | Thunderstorm
  | SnowSleet | MistFog | DustSand | Default

definition spec_icon_rules :: "(string list \<times> category) list" where
  "spec_icon_rules =
     [([''clear''], Clear),
      ([''few clouds''], FewClouds),
      ([''scattered clouds''], ScatteredClouds),
      ([''broken clouds'', ''overcast''], Overcast),
      ([''shower'', ''drizzle''], ShowerDrizzle),
      ([''rain''], Rain),
      ([''thunderstorm''], Thunderstorm),
      ([''snow'', ''sleet''], SnowSleet),
      ([''mist'', ''fog''], MistFog),
      ([''dust'', ''sand''], DustSand)]"

text \<open>First match wins: the rules are tried from the top, the default comes last.\<close>

fun spec_first_match :: "(string list \<times> category) list \<Rightarrow> string \<Rightarrow> category" where
  "spec_first_match [] s = Default"
| "spec_first_match ((ks, c) # rs) s =
     (if list_ex (str_includes s) ks then c else spec_first_match rs s)"

definition spec_category :: "string \<Rightarrow> category" where
  "spec_category description = spec_first_match spec_icon_rules (toLowerCase description)"

text \<open>
  Only the clear and the few-clouds category have a night variant; the default is drawn as
  the daytime sunny icon.
\<close>

fun spec_icon_of :: "category \<Rightarrow> bool \<Rightarrow> icon" where
  "spec_icon_of Clear day = (if day then WiDaySunny else WiNightClear)"
| "spec_icon_of FewClouds day = (if day then WiDayCloudy else WiNightAltCloudy)"
| "spec_icon_of ScatteredClouds day = WiCloud"
| "spec_icon_of Overcast day = WiCloudy"
| "spec_icon_of ShowerDrizzle day = WiShowers"
| "spec_icon_of Rain day = WiRain"
| "spec_icon_of Thunderstorm day = WiThunderstorm"
| "spec_icon_of SnowSleet day = WiSnow"
| "spec_icon_of MistFog day = WiFog"
| "spec_icon_of DustSand day = WiDust"
| "spec_icon_of Default day = WiDaySunny"

definition icon_keywords :: "string list" where
  "icon_keywords =
     [''clear'', ''few clouds'', ''scattered clouds'', ''broken clouds'', ''overcast'',
      ''shower'', ''drizzle'', ''rain'', ''thunderstorm'', ''snow'', ''sleet'', ''mist'',
      ''fog'', ''dust'', ''sand'']"

section \<open>Provider payloads\<close>

text \<open>
  A response body as \<open>axios\<close> hands it over: a parsed JSON value. An object is the list
  of its own properties, each key once. \<open>JUndefined\<close> is what reading a missing property
  gives; it never arrives from the provider itself.
\<close>

datatype json =
    JUndefined | JNull | JBool bool | JNum rat | JStr string
  | JArr "json list" | JObj "(string \<times> json) list"

text \<open>The one exception the data handling can raise.\<close>

datatype exn = TypeError

text \<open>
  \<open>v.k\<close> for the property names the component reads (\<open>list\<close>, \<open>dt\<close>, \<open>main\<close>,
  \<open>temp\<close>, \<open>feels_like\<close>, \<open>humidity\<close>, \<open>wind\<close>, \<open>speed\<close>, \<open>weather\<close>,
  \<open>description\<close>, \<open>icon\<close>): reading a property of \<open>undefined\<close> or \<open>null\<close> throws,
  an object gives the property or \<open>undefined\<close>, and a number, boolean, string or array has
  no property of these names.
\<close>

fun get_prop :: "json \<Rightarrow> string \<Rightarrow> exn + json" where
  "get_prop JUndefined k = Inl TypeError"
| "get_prop JNull k = Inl TypeError"
| "get_prop (JObj kvs) k = Inr (case map_of kvs k of Some v \<Rightarrow> v | None \<Rightarrow> JUndefined)"
| "get_prop v k = Inr JUndefined"

text \<open>\<open>v[0]\<close>: the first element of an array, the first code unit of a string.\<close>

fun index0 :: "json \<Rightarrow> exn + json" where
  "index0 JUndefined = Inl TypeError"
| "index0 JNull = Inl TypeError"
| "index0 (JArr xs) = Inr (case xs of [] \<Rightarrow> JUndefined | x # _ \<Rightarrow> x)"
| "index0 (JStr s) = Inr (case s of [] \<Rightarrow> JUndefined | c # _ \<Rightarrow> JStr [c])"
| "index0 (JObj kvs) = Inr (case map_of kvs ''0'' of Some v \<Rightarrow> v | None \<Rightarrow> JUndefined)"
| "index0 v = Inr JUndefined"

text \<open>Sequencing of steps that may throw: the first exception ends the evaluation.\<close>

definition and_then :: "exn + 'a \<Rightarrow> ('a \<Rightarrow> exn + 'b) \<Rightarrow> exn + 'b" where
  "and_then m f = (case m of Inl e \<Rightarrow> Inl e | Inr x \<Rightarrow> f x)"

fun map_throwing :: "('a \<Rightarrow> exn + 'b) \<Rightarrow> 'a list \<Rightarrow> exn + 'b list" where
  "map_throwing f [] = Inr []"
| "map_throwing f (x # xs) =
     and_then (f x) (\<lambda>y. and_then (map_throwing f xs) (\<lambda>ys. Inr (y # ys)))"

text \<open>
  \<open>new Date(item.dt * 1000)\<close>: the multiplication coerces its operand and the constructor
  accepts any number, so neither throws; the Date is kept as the \<open>dt\<close> it is built from.
\<close>

datatype jsdate = DateOfSeconds json

record forecast_item =
  date :: jsdate
  temp :: json
  feels_like :: json
  humidity :: json
  wind_speed :: json
  description :: json
  icon :: json

text \<open>The arrow function that \<open>fetchWeather\<close> maps over \<open>forecastResponse.data.list\<close>.\<close>

definition forecast_of_item :: "json \<Rightarrow> exn + forecast_item" where
  "forecast_of_item item =
     and_then (get_prop item ''dt'') (\<lambda>dt.
     and_then (get_prop item ''main'') (\<lambda>main.
     and_then (get_prop main ''temp'') (\<lambda>t.
     and_then (get_prop main ''feels_like'') (\<lambda>fl.
     and_then (get_prop main ''humidity'') (\<lambda>h.
     and_then (get_prop item ''wind'') (\<lambda>wind.
     and_then (get_prop wind ''speed'') (\<lambda>ws.
     and_then (get_prop item ''weather'') (\<lambda>weather.
     and_then (index0 weather) (\<lambda>w0.
     and_then (get_prop w0 ''description'') (\<lambda>d.
     and_then (get_prop w0 ''icon'') (\<lambda>ic.
       Inr \<lparr>date = DateOfSeconds dt, temp = t, feels_like = fl, humidity = h,
            wind_speed = ws, description = d, icon = ic\<rparr>)))))))))))"

text \<open>
  \<open>forecastResponse.data.list.map(...)\<close>: only an array has a \<open>map\<close> to call; on
  \<open>undefined\<close> the property read throws, on any other parsed value the call does.
\<close>

definition forecast_of_data :: "json \<Rightarrow> exn + forecast_item list" where
  "forecast_of_data data =
     and_then (get_prop data ''list'') (\<lambda>l.
       case l of JArr items \<Rightarrow> map_throwing forecast_of_item items | _ \<Rightarrow> Inl TypeError)"

section \<open>The component state\<close>

record city_snapshot =
  current :: json
  forecast :: "forecast_item list"

text \<open>
  What an awaited \<open>axios.get\<close> settles with: the promise rejects on a transport failure and
  on a status outside 2xx, and resolves with the parsed body otherwise.
\<close>

datatype response = NetworkError | HttpError nat | Ok json

text \<open>
  An invocation of \<open>fetchWeather\<close> is suspended at its first \<open>await\<close>, at its second
  (holding \<open>weatherResponse.data\<close>), or has returned.
\<close>

datatype fetch = AwaitWeather string | AwaitForecast string json | Finished

text \<open>
  The three \<open>useState\<close> cells, the lines written by \<open>console.error\<close>, the invocations of
  \<open>fetchWeather\<close> in the order they were started, and whether an updater has thrown while
  React applied it.
\<close>

record state =
  city :: string
  cities :: "string list"
  weatherData :: "string \<rightharpoonup> city_snapshot"
  console :: "string list"
  fetches :: "fetch list"
  render_error :: bool

definition init :: state where
  "init = \<lparr>city = [], cities = [], weatherData = Map.empty, console = [], fetches = [],
           render_error = False\<rparr>"

definition handleInputChange :: "string \<Rightarrow> state \<Rightarrow> state" where
  "handleInputChange v s = s\<lparr>city := v\<rparr>"

text \<open>Calling \<open>fetchWeather\<close> runs it up to the first \<open>await\<close>.\<close>

definition fetchWeather :: "string \<Rightarrow> state \<Rightarrow> state" where
  "fetchWeather cityName s = s\<lparr>fetches := fetches s @ [AwaitWeather cityName]\<rparr>"

text \<open>A string is truthy when it is not empty.\<close>

definition handleAddCity :: "state \<Rightarrow> state" where
  "handleAddCity s =
     (if city s \<noteq> [] \<and> city s \<notin> set (cities s)
      then (fetchWeather (city s) (s\<lparr>cities := cities s @ [city s]\<rparr>))\<lparr>city := []\<rparr>
      else s)"

definition handleDeleteCity :: "string \<Rightarrow> state \<Rightarrow> state" where
  "handleDeleteCity cityName s =
     s\<lparr>cities := filter (\<lambda>c. c \<noteq> cityName) (cities s),
       weatherData := (weatherData s)(cityName := None)\<rparr>"

text \<open>
  The updater that \<open>fetchWeather\<close> hands to \<open>setWeatherData\<close>: the spread of \<open>prevData\<close>
  with the one key \<open>cityName\<close> set.
\<close>

definition snapshot_updater ::
    "string \<Rightarrow> json \<Rightarrow> json \<Rightarrow> (string \<rightharpoonup> city_snapshot) \<Rightarrow> exn + (string \<rightharpoonup> city_snapshot)" where
  "snapshot_updater cityName weather_data forecast_data prevData =
     and_then (forecast_of_data forecast_data) (\<lambda>fc.
       Inr (prevData(cityName \<mapsto> \<lparr>current = weather_data, forecast = fc\<rparr>)))"

text \<open>
  \<open>setWeatherData(updater)\<close>: React applies the updater to the latest store. It does so
  outside the \<open>try\<close> block of \<open>fetchWeather\<close>, so an exception of the updater does not
  reach the \<open>catch\<close> clause: the store stays as it is and the render fails.
\<close>

definition setWeatherData ::
    "((string \<rightharpoonup> city_snapshot) \<Rightarrow> exn + (string \<rightharpoonup> city_snapshot)) \<Rightarrow> state \<Rightarrow> state" where
  "setWeatherData updater s =
     (case updater (weatherData s) of
        Inr d \<Rightarrow> s\<lparr>weatherData := d\<rparr>
      | Inl e \<Rightarrow> s\<lparr>render_error := True\<rparr>)"

text \<open>The \<open>catch\<close> clause of invocation \<open>i\<close>, after which the invocation returns.\<close>

definition catch_error :: "nat \<Rightarrow> state \<Rightarrow> state" where
  "catch_error i s =
     s\<lparr>console := console s @ [''Error fetching the weather data''],
       fetches := (fetches s)[i := Finished]\<rparr>"

text \<open>
  The awaited request of invocation \<open>i\<close> settles with \<open>r\<close> and \<open>fetchWeather\<close> runs on
  to its next \<open>await\<close> or to its end. An index that names no suspended invocation is an
  event that cannot happen and changes nothing.
\<close>

definition resume :: "nat \<Rightarrow> response \<Rightarrow> state \<Rightarrow> state" where
  "resume i r s =
     (if i < length (fetches s) then
        (case fetches s ! i of
           AwaitWeather cityName \<Rightarrow>
             (case r of
                Ok data \<Rightarrow> s\<lparr>fetches := (fetches s)[i := AwaitForecast cityName data]\<rparr>
              | _ \<Rightarrow> catch_error i s)
         | AwaitForecast cityName weather_data \<Rightarrow>
             (case r of
                Ok data \<Rightarrow>
                  setWeatherData (snapshot_updater cityName weather_data data)
                    (s\<lparr>fetches := (fetches s)[i := Finished]\<rparr>)
              | _ \<Rightarrow> catch_error i s)
         | Finished \<Rightarrow> s)
      else s)"

subsection \<open>The entry points and runs\<close>

text \<open>\<open>addCity(name)\<close>: the user types \<open>name\<close> and presses the button.\<close>

definition addCity :: "string \<Rightarrow> state \<Rightarrow> state" where
  "addCity name s = handleAddCity (handleInputChange name s)"

definition removeCity :: "string \<Rightarrow> state \<Rightarrow> state" where
  "removeCity name s = handleDeleteCity name s"

datatype action = AddCity string | RemoveCity string | Settle nat response

fun perform :: "action \<Rightarrow> state \<Rightarrow> state" where
  "perform (AddCity name) s = addCity name s"
| "perform (RemoveCity name) s = removeCity name s"
| "perform (Settle i r) s = resume i r s"

text \<open>Each action runs to completion before the next one starts.\<close>

definition run :: "action list \<Rightarrow> state \<Rightarrow> state" where
  "run acts s = foldl (\<lambda>s a. perform a s) s acts"

subsection \<open>Predicates on runs\<close>

text \<open>The city an unfinished invocation of \<open>fetchWeather\<close> works for.\<close>

fun fetch_city :: "fetch \<Rightarrow> string option" where
  "fetch_city (AwaitWeather c) = Some c"
| "fetch_city (AwaitForecast c d) = Some c"
| "fetch_city Finished = None"

definition in_flight :: "state \<Rightarrow> string list" where
  "in_flight s = List.map_filter fetch_city (fetches s)"

text \<open>Along the run, a city is removed only when no fetch for it is in flight.\<close>

fun removals_after_fetches :: "action list \<Rightarrow> state \<Rightarrow> bool" where
  "removals_after_fetches [] s = True"
| "removals_after_fetches (a # acts) s =
     ((case a of RemoveCity x \<Rightarrow> x \<notin> set (in_flight s) | _ \<Rightarrow> True)
      \<and> removals_after_fetches acts (perform a s))"

text \<open>
  The action is the success of the second lookup of a fetch for \<open>x\<close>: the moment that
  fetch reaches \<open>setWeatherData\<close>.
\<close>

fun completes_fetch :: "string \<Rightarrow> action \<Rightarrow> state \<Rightarrow> bool" where
  "completes_fetch x (Settle i (Ok d)) s =
     (i < length (fetches s) \<and>
      (case fetches s ! i of AwaitForecast c w \<Rightarrow> c = x | _ \<Rightarrow> False))"
| "completes_fetch x a s = False"

fun no_completion :: "string \<Rightarrow> action list \<Rightarrow> state \<Rightarrow> bool" where
  "no_completion x [] s = True"
| "no_completion x (a # acts) s =
     (\<not> completes_fetch x a s \<and> no_completion x acts (perform a s))"

text \<open>The action settles the awaited request of invocation \<open>i\<close>.\<close>

fun settles :: "nat \<Rightarrow> action \<Rightarrow> bool" where
  "settles i (Settle j r) = (i = j)"
| "settles i a = False"

text \<open>
  Every key of the store, and every city with a fetch in flight, is in the registry.
\<close>

definition store_within_registry :: "state \<Rightarrow> bool" where
  "store_within_registry s =
     (dom (weatherData s) \<subseteq> set (cities s) \<and> set (in_flight s) \<subseteq> set (cities s))"

subsection \<open>The registry as the specification words it\<close>

text \<open>
  \<open>x\<close> is in the registry after the calls \<open>acts\<close>: the latest call that names \<open>x\<close> is
  an \<open>addCity\<close>, and \<open>x\<close> is not the empty name.
\<close>

definition spec_present :: "action list \<Rightarrow> string \<Rightarrow> bool" where
  "spec_present acts x =
     (case find (\<lambda>a. a = AddCity x \<or> a = RemoveCity x) (rev acts) of
        Some (AddCity y) \<Rightarrow> x \<noteq> []
      | _ \<Rightarrow> False)"

text \<open>
  What call \<open>i\<close> leaves in the registry after all of \<open>acts\<close>: its name, when it is an
  \<open>addCity\<close> of a name that is not empty and not in the registry at that moment, and no
  later call removes that name.
\<close>

definition spec_live_add :: "action list \<Rightarrow> nat \<Rightarrow> string list" where
  "spec_live_add acts i =
     (case acts ! i of
        AddCity x \<Rightarrow>
          if x \<noteq> [] \<and> \<not> spec_present (take i acts) x
             \<and> RemoveCity x \<notin> set (drop (Suc i) acts)
          then [x] else []
      | _ \<Rightarrow> [])"

text \<open>
  The names added with success and not removed since, in the order of those additions.
\<close>

definition spec_registry :: "action list \<Rightarrow> string list" where
  "spec_registry acts = concat (map (spec_live_add acts) [0..<length acts])"

text \<open>A blank name: nothing but white space (the empty name included).\<close>

definition spec_blank :: "string \<Rightarrow> bool" where
  "spec_blank name = list_all (\<lambda>c. c \<in> set [CHR '' '', CHR 0x09, CHR 0x0A, CHR 0x0D]) name"

section \<open>The forecast transformer\<close>

text \<open>
  The date and time formatting of the runtime (\<open>toLocaleDateString\<close>,
  \<open>toLocaleTimeString\<close>) depends on locale and time zone; both are parameters here. The
  date string names the calendar day of a point.
\<close>

text \<open>
  The accumulator of the \<open>reduce\<close> in \<open>renderForecastCards\<close> is an object whose keys
  are date strings; a date string is never an array index, so \<open>Object.entries\<close> lists
  the keys in the order they were created, and the object is the list of its entries.
  \<open>!acc[date]\<close> holds exactly when the key is new: an array is truthy even when empty.
\<close>

definition group_step ::
    "(jsdate \<Rightarrow> string) \<Rightarrow> (string \<times> forecast_item list) list \<Rightarrow> forecast_item
      \<Rightarrow> (string \<times> forecast_item list) list" where
  "group_step toLocaleDateString acc item =
     (let d = toLocaleDateString (date item);
          acc1 = (if map_of acc d = None then acc @ [(d, [])] else acc)
      in map (\<lambda>(k, v). if k = d then (k, v @ [item]) else (k, v)) acc1)"

definition groupedForecast ::
    "(jsdate \<Rightarrow> string) \<Rightarrow> forecast_item list \<Rightarrow> (string \<times> forecast_item list) list" where
  "groupedForecast toLocaleDateString fc = foldl (group_step toLocaleDateString) [] fc"

text \<open>
  The distinct elements of a list in the order of their first occurrence: the head, then
  the rest without it.
\<close>

fun spec_first_seen :: "'a list \<Rightarrow> 'a list" where
  "spec_first_seen [] = []"
| "spec_first_seen (x # xs) = x # filter (\<lambda>y. y \<noteq> x) (spec_first_seen xs)"

record dataset =
  label :: string
  data :: "json list"
  borderColor :: string
  backgroundColor :: string
  yAxisID :: string

record chart_data =
  labels :: "string list"
  datasets :: "dataset list"

definition generateChartData :: "(jsdate \<Rightarrow> string) \<Rightarrow> forecast_item list \<Rightarrow> chart_data" where
  "generateChartData toLocaleTimeString fc =
     \<lparr>labels = map (\<lambda>item. toLocaleTimeString (date item)) fc,
      datasets =
        [\<lparr>label = ''Temperature ('' @ [CHR 0xB0] @ ''C)'',
          data = map (\<lambda>item. temp item) fc,
          borderColor = ''rgba(255, 99, 132, 1)'',
          backgroundColor = ''rgba(255, 99, 132, 0.2)'',
          yAxisID = ''y-axis-1''\<rparr>,
         \<lparr>label = ''Humidity (%)'',
          data = map (\<lambda>item. humidity item) fc,
          borderColor = ''rgba(54, 162, 235, 1)'',
          backgroundColor = ''rgba(54, 162, 235, 0.2)'',
          yAxisID = ''y-axis-2''\<rparr>,
         \<lparr>label = ''Wind Speed (m/s)'',
          data = map (\<lambda>item. wind_speed item) fc,
          borderColor = ''rgba(75, 192, 192, 1)'',
          backgroundColor = ''rgba(75, 192, 192, 0.2)'',
          yAxisID = ''y-axis-3''\<rparr>]\<rparr>"

subsection \<open>Example data\<close>

text \<open>
  A forecast point at \<open>dt\<close> seconds, and a date and a time formatting for a runtime whose
  time zone is UTC, on the first two days of the epoch.
\<close>

definition example_point :: "rat \<Rightarrow> rat \<Rightarrow> forecast_item" where
  "example_point dt t =
     \<lparr>date = DateOfSeconds (JNum dt), temp = JNum t, feels_like = JNum t,
      humidity = JNum 80, wind_speed = JNum 3, description = JStr ''light rain'',
      icon = JStr ''10d''\<rparr>"

fun example_date_string :: "jsdate \<Rightarrow> string" where
  "example_date_string (DateOfSeconds (JNum n)) =
     (if n < 86400 then ''1/1/1970'' else ''1/2/1970'')"
| "example_date_string (DateOfSeconds v) = ''Invalid Date''"

fun example_time_string :: "jsdate \<Rightarrow> string" where
  "example_time_string (DateOfSeconds (JNum n)) =
     (if n = 0 \<or> n = 86400 then ''12:00 AM''
      else if n = 75600 \<or> n = 162000 then ''09:00 PM'' else ''12:00 PM'')"
| "example_time_string (DateOfSeconds v) = ''Invalid Date''"

text \<open>A forecast payload of one point, as the provider sends it.\<close>

definition example_forecast_data :: json where
  "example_forecast_data =
     JObj [(''list'',
       JArr [JObj [(''dt'', JNum 75600),
                   (''main'', JObj [(''temp'', JNum (183 / 10)),
                                    (''feels_like'', JNum 18),
                                    (''humidity'', JNum 80)]),
                   (''wind'', JObj [(''speed'', JNum 3)]),
                   (''weather'', JArr [JObj [(''description'', JStr ''light rain''),
                                             (''icon'', JStr ''10d'')]])]])]"

section \<open>Daytime\<close>

text \<open>
  C6. \<open>isDay\<close> is true exactly when the timestamp lies strictly between sunrise and
  sunset: it is false at sunrise, false at sunset and false outside the interval.
\<close>

theorem isDay_strict:
  "isDay t sunrise sunset = (sunrise < t \<and> t < sunset)
   \<and> \<not> isDay sunrise sunrise sunset
   \<and> \<not> isDay sunset sunrise sunset
   \<and> (t \<le> sunrise \<or> sunset \<le> t \<longrightarrow> \<not> isDay t sunrise sunset)"
  by (auto simp: isDay_def)

theorem isDay_strict_witness:
  "((5::int) \<le> 10 \<or> (20::int) \<le> 5) \<and> \<not> isDay 5 10 20 \<and> isDay 15 10 20"
  using isDay_strict [of 5 10 20] isDay_strict [of 15 10 20] by simp

section \<open>Icon selection\<close>

lemma str_includes_sublist: "str_includes s t = sublist t s"
  by (induction s) (auto simp: sublist_Cons_right)

lemma getWeatherIcon_refines: "getWeatherIcon d b = spec_icon_of (spec_category d) b"
  by (simp add: getWeatherIcon_def spec_category_def spec_icon_rules_def Let_def)

lemma spec_icon_of_flag:
  "c \<noteq> Clear \<Longrightarrow> c \<noteq> FewClouds \<Longrightarrow> spec_icon_of c True = spec_icon_of c False"
  by (cases c) simp_all

lemma broken_clouds_icon: "getWeatherIcon ''broken clouds'' b = WiCloudy"
proof (cases b)
  case True
  have "getWeatherIcon ''broken clouds'' True = WiCloudy" by code_simp
  with True show ?thesis by simp
next
  case False
  have "getWeatherIcon ''broken clouds'' False = WiCloudy" by code_simp
  with False show ?thesis by simp
qed

text \<open>
  C7, as the code has it. \<open>getWeatherIcon\<close> lowers the description and takes the first
  rule of the priority list that has a keyword occurring in it, the default when none
  has; descriptions that agree up to case get the same icon; the day flag matters only in
  the clear and the few-clouds category. A description containing \<open>shower\<close> gets the
  shower icon, also when it contains \<open>rain\<close>, provided that no rule above the shower rule
  matches; \<open>broken clouds\<close> gets the overcast icon by day and by night.
\<close>

theorem getWeatherIcon_priority:
  "getWeatherIcon d b = spec_icon_of (spec_category d) b
   \<and> (toLowerCase d = toLowerCase d' \<longrightarrow> getWeatherIcon d b = getWeatherIcon d' b)
   \<and> (spec_category d \<noteq> Clear \<and> spec_category d \<noteq> FewClouds \<longrightarrow>
        getWeatherIcon d True = getWeatherIcon d False)
   \<and> (str_includes (toLowerCase d) ''shower''
        \<and> \<not> str_includes (toLowerCase d) ''clear''
        \<and> \<not> str_includes (toLowerCase d) ''few clouds''
        \<and> \<not> str_includes (toLowerCase d) ''scattered clouds''
        \<and> \<not> str_includes (toLowerCase d) ''broken clouds''
        \<and> \<not> str_includes (toLowerCase d) ''overcast'' \<longrightarrow>
        spec_category d = ShowerDrizzle \<and> getWeatherIcon d b = WiShowers)
   \<and> spec_category ''broken clouds'' = Overcast
   \<and> getWeatherIcon ''broken clouds'' b = WiCloudy"
proof -
  have 1: "getWeatherIcon d b = spec_icon_of (spec_category d) b"
    by (rule getWeatherIcon_refines)
  have 2: "toLowerCase d = toLowerCase d' \<longrightarrow> getWeatherIcon d b = getWeatherIcon d' b"
    by (simp add: getWeatherIcon_def)
  have 3: "spec_category d \<noteq> Clear \<and> spec_category d \<noteq> FewClouds \<longrightarrow>
        getWeatherIcon d True = getWeatherIcon d False"
    by (simp add: getWeatherIcon_refines spec_icon_of_flag)
  have 4: "str_includes (toLowerCase d) ''shower''
        \<and> \<not> str_includes (toLowerCase d) ''clear''
        \<and> \<not> str_includes (toLowerCase d) ''few clouds''
        \<and> \<not> str_includes (toLowerCase d) ''scattered clouds''
        \<and> \<not> str_includes (toLowerCase d) ''broken clouds''
        \<and> \<not> str_includes (toLowerCase d) ''overcast'' \<longrightarrow>
        spec_category d = ShowerDrizzle \<and> getWeatherIcon d b = WiShowers"
    by (simp add: getWeatherIcon_def spec_category_def spec_icon_rules_def Let_def)
  have 5: "spec_category ''broken clouds'' = Overcast" by code_simp
  from 1 2 3 4 5 broken_clouds_icon show ?thesis by blast
qed

theorem getWeatherIcon_priority_witness:
  "toLowerCase ''Light Rain SHOWERS'' = toLowerCase ''light rain showers''
   \<and> spec_category ''light rain showers'' \<noteq> Clear
   \<and> spec_category ''light rain showers'' \<noteq> FewClouds
   \<and> str_includes (toLowerCase ''light rain showers'') ''shower''
   \<and> str_includes (toLowerCase ''light rain showers'') ''rain''
   \<and> \<not> str_includes (toLowerCase ''light rain showers'') ''clear''
   \<and> \<not> str_includes (toLowerCase ''light rain showers'') ''few clouds''
   \<and> \<not> str_includes (toLowerCase ''light rain showers'') ''scattered clouds''
   \<and> \<not> str_includes (toLowerCase ''light rain showers'') ''broken clouds''
   \<and> \<not> str_includes (toLowerCase ''light rain showers'') ''overcast''
   \<and> getWeatherIcon ''Light Rain SHOWERS'' True = WiShowers
   \<and> getWeatherIcon ''light rain showers'' True = WiShowers
   \<and> getWeatherIcon ''light rain showers'' False = WiShowers"
proof -
  have h: "toLowerCase ''Light Rain SHOWERS'' = toLowerCase ''light rain showers''
   \<and> spec_category ''light rain showers'' \<noteq> Clear
   \<and> spec_category ''light rain showers'' \<noteq> FewClouds
   \<and> str_includes (toLowerCase ''light rain showers'') ''shower''
   \<and> str_includes (toLowerCase ''light rain showers'') ''rain''
   \<and> \<not> str_includes (toLowerCase ''light rain showers'') ''clear''
   \<and> \<not> str_includes (toLowerCase ''light rain showers'') ''few clouds''
   \<and> \<not> str_includes (toLowerCase ''light rain showers'') ''scattered clouds''
   \<and> \<not> str_includes (toLowerCase ''light rain showers'') ''broken clouds''
   \<and> \<not> str_includes (toLowerCase ''light rain showers'') ''overcast''"
    by code_simp
  from h
    getWeatherIcon_priority [of "''Light Rain SHOWERS''" True "''light rain showers''"]
    getWeatherIcon_priority [of "''light rain showers''" True "''light rain showers''"]
    getWeatherIcon_priority [of "''light rain showers''" False "''light rain showers''"]
  show ?thesis by metis
qed

text \<open>
  The claim as worded fails: a description may contain \<open>shower\<close> and a keyword of a rule
  above the shower rule, and then the rule above wins.
\<close>

theorem shower_not_always_counterexample:
  "str_includes (toLowerCase ''showers, then clear'') ''shower''
   \<and> getWeatherIcon ''showers, then clear'' True = WiDaySunny
   \<and> getWeatherIcon ''showers, then clear'' True \<noteq> WiShowers"
  by code_simp

text \<open>
  C10. A description in which no keyword of the rules occurs gets the daytime sunny icon,
  by day and by night: the default has no night variant.
\<close>

theorem getWeatherIcon_default:
  "list_all (\<lambda>k. \<not> str_includes (toLowerCase d) k) icon_keywords \<Longrightarrow>
   getWeatherIcon d True = WiDaySunny \<and> getWeatherIcon d False = WiDaySunny"
  by (simp add: getWeatherIcon_def icon_keywords_def Let_def)

theorem getWeatherIcon_default_witness:
  "list_all (\<lambda>k. \<not> str_includes (toLowerCase ''haze'') k) icon_keywords
   \<and> getWeatherIcon ''haze'' True = WiDaySunny \<and> getWeatherIcon ''haze'' False = WiDaySunny"
proof -
  have h: "list_all (\<lambda>k. \<not> str_includes (toLowerCase ''haze'') k) icon_keywords"
    by code_simp
  from h getWeatherIcon_default [OF h] show ?thesis by simp
qed

section \<open>The registry\<close>

text \<open>
  C3, as the code has it. \<open>addCity\<close> changes nothing but the input field when the name
  is the empty string or is in the registry already (compared as strings); otherwise it
  appends the name to the registry, starts one fetch for it and clears the input field.
  A name of white space only is not empty and is added like any other.
\<close>

theorem addCity_effect:
  "(name = [] \<or> name \<in> set (cities s) \<longrightarrow>
      addCity name s = s\<lparr>city := name\<rparr>
      \<and> cities (addCity name s) = cities s
      \<and> length (cities (addCity name s)) = length (cities s)
      \<and> fetches (addCity name s) = fetches s)
   \<and> (name \<noteq> [] \<and> name \<notin> set (cities s) \<longrightarrow>
      addCity name s =
        s\<lparr>city := [], cities := cities s @ [name], fetches := fetches s @ [AwaitWeather name]\<rparr>
      \<and> cities (addCity name s) = cities s @ [name]
      \<and> fetches (addCity name s) = fetches s @ [AwaitWeather name])"
  by (auto simp: addCity_def handleAddCity_def handleInputChange_def fetchWeather_def)

theorem addCity_effect_witness:
  "(''Oslo'' \<in> set (cities (addCity ''Oslo'' init))
    \<and> cities (addCity ''Oslo'' (addCity ''Oslo'' init)) = cities (addCity ''Oslo'' init)
    \<and> fetches (addCity ''Oslo'' (addCity ''Oslo'' init)) = fetches (addCity ''Oslo'' init))
   \<and> (''Oslo'' \<noteq> [] \<and> ''Oslo'' \<notin> set (cities init)
    \<and> cities (addCity ''Oslo'' init) = cities init @ [''Oslo'']
    \<and> fetches (addCity ''Oslo'' init) = fetches init @ [AwaitWeather ''Oslo''])"
proof -
  have a: "''Oslo'' \<noteq> [] \<and> ''Oslo'' \<notin> set (cities init)"
    by (simp add: init_def)
  have b: "''Oslo'' \<in> set (cities (addCity ''Oslo'' init))"
    by (simp add: init_def addCity_def handleAddCity_def handleInputChange_def fetchWeather_def)
  from a b addCity_effect [of "''Oslo''" init]
    addCity_effect [of "''Oslo''" "addCity ''Oslo'' init"]
  show ?thesis by blast
qed

text \<open>The claim as worded fails at a blank name that is not empty: a single space.\<close>

theorem addCity_blank_counterexample:
  "spec_blank '' ''
   \<and> cities (addCity '' '' init) \<noteq> cities init
   \<and> length (cities (addCity '' '' init)) \<noteq> length (cities init)
   \<and> fetches (addCity '' '' init) \<noteq> fetches init"
  by (simp add: spec_blank_def init_def addCity_def handleAddCity_def handleInputChange_def
      fetchWeather_def)

section \<open>Chart series\<close>

text \<open>
  C9. For a forecast of \<open>N\<close> points \<open>generateChartData\<close> gives \<open>N\<close> labels, the time of
  day of each point, and three series (temperature, humidity, wind speed) of length \<open>N\<close>
  whose \<open>i\<close>-th values come from the \<open>i\<close>-th point; for the empty forecast the labels
  and the three series are empty.
\<close>

theorem generateChartData_aligned:
  "length (labels (generateChartData f fc)) = length fc
   \<and> length (datasets (generateChartData f fc)) = 3
   \<and> (\<forall>ds \<in> set (datasets (generateChartData f fc)). length (data ds) = length fc)
   \<and> (\<forall>i < length fc.
        labels (generateChartData f fc) ! i = f (date (fc ! i))
        \<and> data (datasets (generateChartData f fc) ! 0) ! i = temp (fc ! i)
        \<and> data (datasets (generateChartData f fc) ! 1) ! i = humidity (fc ! i)
        \<and> data (datasets (generateChartData f fc) ! 2) ! i = wind_speed (fc ! i))
   \<and> labels (generateChartData f []) = []
   \<and> map data (datasets (generateChartData f [])) = [[], [], []]"
  by (simp add: generateChartData_def)

theorem generateChartData_aligned_witness:
  "(1::nat) < length [example_point 0 18, example_point 75600 12]
   \<and> labels (generateChartData example_time_string
        [example_point 0 18, example_point 75600 12]) ! 1 = ''09:00 PM''
   \<and> data (datasets (generateChartData example_time_string
        [example_point 0 18, example_point 75600 12]) ! 0) ! 1 = JNum 12
   \<and> data (datasets (generateChartData example_time_string
        [example_point 0 18, example_point 75600 12]) ! 1) ! 1 = JNum 80
   \<and> data (datasets (generateChartData example_time_string
        [example_point 0 18, example_point 75600 12]) ! 2) ! 1 = JNum 3
   \<and> datasets (generateChartData example_time_string
        [example_point 0 18, example_point 75600 12]) \<noteq> []
   \<and> length (data (hd (datasets (generateChartData example_time_string
        [example_point 0 18, example_point 75600 12])))) = 2"
  using generateChartData_aligned
    [of example_time_string "[example_point 0 18, example_point 75600 12]"]
  by (simp add: example_point_def generateChartData_def)

section \<open>Fetching\<close>

lemmas entry_defs = addCity_def removeCity_def handleAddCity_def handleInputChange_def
  handleDeleteCity_def fetchWeather_def resume_def setWeatherData_def catch_error_def
  snapshot_updater_def and_then_def

lemma run_Nil [simp]: "run [] s = s"
  by (simp add: run_def)

lemma run_Cons [simp]: "run (a # acts) s = run acts (perform a s)"
  by (simp add: run_def)

lemma run_snoc: "run (acts @ [a]) s = perform a (run acts s)"
  by (simp add: run_def)

lemma example_forecast:
  "forecast_of_data example_forecast_data =
     Inr [(example_point 75600 (183 / 10))\<lparr>feels_like := JNum 18\<rparr>]"
  by (simp add: example_forecast_data_def forecast_of_data_def forecast_of_item_def
      and_then_def example_point_def)

text \<open>
  Settling a request either leaves the store alone or, at the success of the second
  lookup, sets the one key of the fetch to a snapshot built from both responses.
\<close>

lemma resume_store_cases:
  "weatherData (resume i r s) = weatherData s
   \<or> (\<exists>name cur d fc. i < length (fetches s) \<and> fetches s ! i = AwaitForecast name cur
        \<and> r = Ok d \<and> forecast_of_data d = Inr fc
        \<and> weatherData (resume i r s) =
            (weatherData s)(name \<mapsto> \<lparr>current = cur, forecast = fc\<rparr>))"
  by (auto simp: entry_defs split: fetch.splits response.splits sum.splits)

lemma merge_at_completion:
  assumes "i < length (fetches s)" "fetches s ! i = AwaitForecast name cur"
    "forecast_of_data d = Inr fc"
  shows "weatherData (resume i (Ok d) s) =
           (weatherData s)(name \<mapsto> \<lparr>current = cur, forecast = fc\<rparr>)"
  using assms by (simp add: entry_defs)

text \<open>
  C2, as the code has it. The store changes only when the second lookup of a fetch
  succeeds, the first having succeeded before, and then the entry written is a whole
  snapshot: the current conditions of the first response and the forecast of the second.
  When a lookup fails by a network error or a status outside 2xx, the error goes to
  \<open>console.error\<close>, the fetch ends and the store stays as it is. The body of a successful
  response is not validated: the current conditions are stored as received.
\<close>

theorem fetchWeather_all_or_nothing:
  "(weatherData (resume i r s) \<noteq> weatherData s \<longrightarrow>
      (\<exists>name cur d fc. i < length (fetches s) \<and> fetches s ! i = AwaitForecast name cur
         \<and> r = Ok d \<and> forecast_of_data d = Inr fc
         \<and> weatherData (resume i r s) =
             (weatherData s)(name \<mapsto> \<lparr>current = cur, forecast = fc\<rparr>)))
   \<and> (i < length (fetches s) \<and> fetches s ! i = AwaitWeather name \<longrightarrow>
        fetches (resume i (Ok cur) s) ! i = AwaitForecast name cur)
   \<and> (i < length (fetches s) \<and> fetches s ! i \<noteq> Finished
        \<and> (r = NetworkError \<or> r = HttpError n) \<longrightarrow>
        weatherData (resume i r s) = weatherData s
        \<and> console (resume i r s) = console s @ [''Error fetching the weather data'']
        \<and> fetches (resume i r s) ! i = Finished)
   \<and> (i < length (fetches s) \<and> fetches s ! i = AwaitForecast name cur
        \<and> forecast_of_data d = Inr fc \<longrightarrow>
        weatherData (resume i (Ok d) s) =
          (weatherData s)(name \<mapsto> \<lparr>current = cur, forecast = fc\<rparr>)
        \<and> console (resume i (Ok d) s) = console s)"
proof -
  have 1: "weatherData (resume i r s) \<noteq> weatherData s \<longrightarrow>
      (\<exists>name cur d fc. i < length (fetches s) \<and> fetches s ! i = AwaitForecast name cur
         \<and> r = Ok d \<and> forecast_of_data d = Inr fc
         \<and> weatherData (resume i r s) =
             (weatherData s)(name \<mapsto> \<lparr>current = cur, forecast = fc\<rparr>))"
    using resume_store_cases [of i r s] by blast
  have 2: "i < length (fetches s) \<and> fetches s ! i = AwaitWeather name \<longrightarrow>
        fetches (resume i (Ok cur) s) ! i = AwaitForecast name cur"
    by (simp add: resume_def)
  have 3: "i < length (fetches s) \<and> fetches s ! i \<noteq> Finished
        \<and> (r = NetworkError \<or> r = HttpError n) \<longrightarrow>
        weatherData (resume i r s) = weatherData s
        \<and> console (resume i r s) = console s @ [''Error fetching the weather data'']
        \<and> fetches (resume i r s) ! i = Finished"
    by (auto simp: resume_def catch_error_def split: fetch.splits)
  have 4: "i < length (fetches s) \<and> fetches s ! i = AwaitForecast name cur
        \<and> forecast_of_data d = Inr fc \<longrightarrow>
        weatherData (resume i (Ok d) s) =
          (weatherData s)(name \<mapsto> \<lparr>current = cur, forecast = fc\<rparr>)
        \<and> console (resume i (Ok d) s) = console s"
    by (simp add: entry_defs)
  from 1 2 3 4 show ?thesis by blast
qed

theorem fetchWeather_all_or_nothing_witness:
  "(0::nat) < length (fetches (run [AddCity ''Paris''] init))
   \<and> fetches (run [AddCity ''Paris''] init) ! 0 = AwaitWeather ''Paris''
   \<and> fetches (run [AddCity ''Paris''] init) ! 0 \<noteq> Finished
   \<and> fetches (resume 0 (Ok (JStr ''x'')) (run [AddCity ''Paris''] init)) ! 0
       = AwaitForecast ''Paris'' (JStr ''x'')
   \<and> console (resume 0 (HttpError 404) (run [AddCity ''Paris''] init))
       = [''Error fetching the weather data'']
   \<and> weatherData (resume 0 (HttpError 404) (run [AddCity ''Paris''] init))
       = weatherData (run [AddCity ''Paris''] init)
   \<and> (0::nat) < length (fetches (run [AddCity ''Paris'', Settle 0 (Ok (JStr ''x''))] init))
   \<and> fetches (run [AddCity ''Paris'', Settle 0 (Ok (JStr ''x''))] init) ! 0
       = AwaitForecast ''Paris'' (JStr ''x'')
   \<and> weatherData (resume 0 (Ok example_forecast_data)
         (run [AddCity ''Paris'', Settle 0 (Ok (JStr ''x''))] init))
       \<noteq> weatherData (run [AddCity ''Paris'', Settle 0 (Ok (JStr ''x''))] init)
   \<and> weatherData (resume 0 (Ok example_forecast_data)
         (run [AddCity ''Paris'', Settle 0 (Ok (JStr ''x''))] init)) ''Paris''
       = Some \<lparr>current = JStr ''x'',
               forecast = [(example_point 75600 (183 / 10))\<lparr>feels_like := JNum 18\<rparr>]\<rparr>
   \<and> weatherData (resume 0 NetworkError
         (run [AddCity ''Paris'', Settle 0 (Ok (JStr ''x''))] init))
       = weatherData (run [AddCity ''Paris'', Settle 0 (Ok (JStr ''x''))] init)"
proof -
  let ?s1 = "run [AddCity ''Paris''] init"
  let ?s2 = "run [AddCity ''Paris'', Settle 0 (Ok (JStr ''x''))] init"
  have a: "(0::nat) < length (fetches ?s1) \<and> fetches ?s1 ! 0 = AwaitWeather ''Paris''"
    by code_simp
  have b: "(0::nat) < length (fetches ?s2)
    \<and> fetches ?s2 ! 0 = AwaitForecast ''Paris'' (JStr ''x'')"
    by code_simp
  have c: "weatherData (resume 0 (Ok example_forecast_data) ?s2) ''Paris''
    \<noteq> weatherData ?s2 ''Paris''"
    by code_simp
  then have d: "weatherData (resume 0 (Ok example_forecast_data) ?s2) \<noteq> weatherData ?s2"
    by metis
  have e: "console ?s1 = []" by code_simp
  have f: "fetches ?s2 ! 0 \<noteq> Finished" using b by simp
  have g: "fetches ?s1 ! 0 \<noteq> Finished" using a by simp
  note t1 = fetchWeather_all_or_nothing [of 0 "HttpError 404" ?s1 "''Paris''" "JStr ''x''" 404]
  note t2 = fetchWeather_all_or_nothing [of 0 "NetworkError" ?s2 "''Paris''" "JStr ''x''" 0
      example_forecast_data "[(example_point 75600 (183 / 10))\<lparr>feels_like := JNum 18\<rparr>]"]
  from a g e t1 have p1: "fetches (resume 0 (Ok (JStr ''x'')) ?s1) ! 0
       = AwaitForecast ''Paris'' (JStr ''x'')
     \<and> console (resume 0 (HttpError 404) ?s1) = [''Error fetching the weather data'']
     \<and> weatherData (resume 0 (HttpError 404) ?s1) = weatherData ?s1"
    by simp
  from b f t2 example_forecast have p2:
    "weatherData (resume 0 (Ok example_forecast_data) ?s2) ''Paris''
       = Some \<lparr>current = JStr ''x'',
               forecast = [(example_point 75600 (183 / 10))\<lparr>feels_like := JNum 18\<rparr>]\<rparr>
     \<and> weatherData (resume 0 NetworkError ?s2) = weatherData ?s2"
    by simp
  from a b d g p1 p2 show ?thesis by blast
qed

text \<open>
  The claim as worded fails at a malformed payload: when the first lookup answers with
  the body \<open>null\<close> and the second with a forecast, the store gets an entry whose current
  conditions are \<open>null\<close>, and nothing is reported.
\<close>

theorem unvalidated_payload_counterexample:
  "weatherData init ''Paris'' = None
   \<and> weatherData (run [AddCity ''Paris'', Settle 0 (Ok JNull),
        Settle 0 (Ok example_forecast_data)] init) ''Paris''
     = Some \<lparr>current = JNull,
             forecast = [(example_point 75600 (183 / 10))\<lparr>feels_like := JNum 18\<rparr>]\<rparr>
   \<and> console (run [AddCity ''Paris'', Settle 0 (Ok JNull),
        Settle 0 (Ok example_forecast_data)] init) = []"
  by (simp add: init_def entry_defs example_forecast)

subsection \<open>The merge is keyed\<close>

lemma perform_keeps_fetch:
  assumes "\<not> settles i a" "i < length (fetches s)"
  shows "i < length (fetches (perform a s)) \<and> fetches (perform a s) ! i = fetches s ! i"
proof (cases a)
  case (AddCity n)
  with assms show ?thesis by (simp add: entry_defs nth_append)
next
  case (RemoveCity x)
  with assms show ?thesis by (simp add: entry_defs)
next
  case (Settle j r)
  with assms have "i \<noteq> j" by simp
  with assms(2) Settle show ?thesis
    by (auto simp: entry_defs split: fetch.splits response.splits sum.splits)
qed

lemma run_keeps_fetch:
  "list_all (\<lambda>a. \<not> settles i a) acts \<Longrightarrow> i < length (fetches s) \<Longrightarrow>
   i < length (fetches (run acts s)) \<and> fetches (run acts s) ! i = fetches s ! i"
proof (induction acts arbitrary: s)
  case Nil
  then show ?case by simp
next
  case (Cons a acts)
  from Cons.prems have "i < length (fetches (perform a s))
    \<and> fetches (perform a s) ! i = fetches s ! i"
    by (simp add: perform_keeps_fetch)
  with Cons show ?case by simp
qed

text \<open>
  C5. A fetch for \<open>name\<close> is started; other actions run while it waits for its first
  and for its second lookup; \<open>s\<close> is the state just before the second lookup succeeds.
  The merge then sets the key \<open>name\<close> to the new snapshot and leaves the entry of every
  other key as it is in \<open>s\<close>, whatever was written there while the fetch was in flight.
\<close>

theorem fetch_merge_keyed:
  assumes "i < length (fetches s0)" and "fetches s0 ! i = AwaitWeather name"
    and "list_all (\<lambda>a. \<not> settles i a) acts1" and "list_all (\<lambda>a. \<not> settles i a) acts2"
    and "s = run acts2 (resume i (Ok cur) (run acts1 s0))"
    and "forecast_of_data d = Inr fc"
  shows "weatherData (resume i (Ok d) s) name = Some \<lparr>current = cur, forecast = fc\<rparr>
         \<and> (\<forall>k. k \<noteq> name \<longrightarrow> weatherData (resume i (Ok d) s) k = weatherData s k)"
proof -
  let ?s1 = "run acts1 s0"
  let ?s2 = "resume i (Ok cur) ?s1"
  from assms(1,2,3) have 1: "i < length (fetches ?s1) \<and> fetches ?s1 ! i = AwaitWeather name"
    using run_keeps_fetch [of i acts1 s0] by simp
  then have 2: "i < length (fetches ?s2) \<and> fetches ?s2 ! i = AwaitForecast name cur"
    by (simp add: resume_def)
  with assms(4,5) have 3: "i < length (fetches s) \<and> fetches s ! i = AwaitForecast name cur"
    using run_keeps_fetch [of i acts2 ?s2] by simp
  with assms(6) have "weatherData (resume i (Ok d) s) =
           (weatherData s)(name \<mapsto> \<lparr>current = cur, forecast = fc\<rparr>)"
    by (simp add: merge_at_completion)
  then show ?thesis by simp
qed

theorem fetch_merge_keyed_witness:
  "(0::nat) < length (fetches (run [AddCity ''Paris'', AddCity ''Rome''] init))
   \<and> fetches (run [AddCity ''Paris'', AddCity ''Rome''] init) ! 0 = AwaitWeather ''Paris''
   \<and> list_all (\<lambda>a. \<not> settles 0 a) [Settle 1 (Ok JNull)]
   \<and> list_all (\<lambda>a. \<not> settles 0 a) [Settle 1 (Ok example_forecast_data)]
   \<and> ''Rome'' \<noteq> ''Paris''
   \<and> weatherData (run [Settle 1 (Ok example_forecast_data)]
        (resume 0 (Ok (JStr ''x'')) (run [Settle 1 (Ok JNull)]
          (run [AddCity ''Paris'', AddCity ''Rome''] init)))) ''Rome'' \<noteq> None
   \<and> weatherData (resume 0 (Ok example_forecast_data)
        (run [Settle 1 (Ok example_forecast_data)]
          (resume 0 (Ok (JStr ''x'')) (run [Settle 1 (Ok JNull)]
            (run [AddCity ''Paris'', AddCity ''Rome''] init))))) ''Rome''
      = weatherData (run [Settle 1 (Ok example_forecast_data)]
        (resume 0 (Ok (JStr ''x'')) (run [Settle 1 (Ok JNull)]
          (run [AddCity ''Paris'', AddCity ''Rome''] init)))) ''Rome''
   \<and> weatherData (resume 0 (Ok example_forecast_data)
        (run [Settle 1 (Ok example_forecast_data)]
          (resume 0 (Ok (JStr ''x'')) (run [Settle 1 (Ok JNull)]
            (run [AddCity ''Paris'', AddCity ''Rome''] init))))) ''Paris''
      = Some \<lparr>current = JStr ''x'',
              forecast = [(example_point 75600 (183 / 10))\<lparr>feels_like := JNum 18\<rparr>]\<rparr>"
proof -
  have a: "(0::nat) < length (fetches (run [AddCity ''Paris'', AddCity ''Rome''] init))"
    by code_simp
  have b: "fetches (run [AddCity ''Paris'', AddCity ''Rome''] init) ! 0 = AwaitWeather ''Paris''"
    by code_simp
  have c: "list_all (\<lambda>a. \<not> settles 0 a) [Settle 1 (Ok JNull)]" by simp
  have d: "list_all (\<lambda>a. \<not> settles 0 a) [Settle 1 (Ok example_forecast_data)]" by simp
  have e: "''Rome'' \<noteq> ''Paris''" by simp
  have f: "weatherData (run [Settle 1 (Ok example_forecast_data)]
        (resume 0 (Ok (JStr ''x'')) (run [Settle 1 (Ok JNull)]
          (run [AddCity ''Paris'', AddCity ''Rome''] init)))) ''Rome'' \<noteq> None"
    by code_simp
  from a b c d e f fetch_merge_keyed [OF a b c d refl example_forecast, of "JStr ''x''"]
  show ?thesis by simp
qed

section \<open>Store and registry\<close>

lemma set_in_flight: "set (in_flight s) = {c. \<exists>f \<in> set (fetches s). fetch_city f = Some c}"
  by (force simp: in_flight_def map_filter_def)

lemma in_flight_nth:
  "i < length (fetches s) \<Longrightarrow> fetch_city (fetches s ! i) = Some c \<Longrightarrow> c \<in> set (in_flight s)"
  by (auto simp: set_in_flight)

lemma fetch_city_update:
  assumes "f \<in> set (fs[i := g])" "fetch_city f = Some c"
  shows "(\<exists>f' \<in> set fs. fetch_city f' = Some c) \<or> (i < length fs \<and> fetch_city g = Some c)"
proof -
  from assms(1) have "f \<in> insert g (set fs)"
    using set_update_subset_insert by fastforce
  moreover have "i < length fs" if "f \<notin> set fs"
    using that assms(1) by (cases "i < length fs") (auto simp: list_update_beyond)
  ultimately show ?thesis using assms(2) by auto
qed

lemma resume_cities: "cities (resume i r s) = cities s"
  by (auto simp: entry_defs split: fetch.splits response.splits sum.splits)

lemma resume_in_flight: "set (in_flight (resume i r s)) \<subseteq> set (in_flight s)"
proof
  fix c assume "c \<in> set (in_flight (resume i r s))"
  then obtain f where f: "f \<in> set (fetches (resume i r s))" "fetch_city f = Some c"
    by (auto simp: set_in_flight)
  show "c \<in> set (in_flight s)"
  proof (cases "i < length (fetches s)")
    case False
    with f show ?thesis by (auto simp: resume_def set_in_flight)
  next
    case True
    from f have "f \<in> set (fetches s) \<or>
      (\<exists>g. f \<in> set ((fetches s)[i := g]) \<and> (g = Finished \<or> fetch_city g = fetch_city (fetches s ! i)))"
      using True
      by (auto simp: entry_defs split: fetch.splits response.splits sum.splits)
    then show ?thesis
    proof
      assume "f \<in> set (fetches s)"
      with f(2) show ?thesis by (auto simp: set_in_flight)
    next
      assume "\<exists>g. f \<in> set ((fetches s)[i := g]) \<and> (g = Finished \<or> fetch_city g = fetch_city (fetches s ! i))"
      then obtain g where g: "f \<in> set ((fetches s)[i := g])"
        "g = Finished \<or> fetch_city g = fetch_city (fetches s ! i)" by blast
      from fetch_city_update [OF g(1) f(2)]
      show ?thesis
      proof
        assume "\<exists>f' \<in> set (fetches s). fetch_city f' = Some c"
        then show ?thesis by (auto simp: set_in_flight)
      next
        assume a: "i < length (fetches s) \<and> fetch_city g = Some c"
        with g(2) have "fetch_city (fetches s ! i) = Some c" by auto
        with a show ?thesis by (auto intro: in_flight_nth)
      qed
    qed
  qed
qed

lemma inv_resume:
  assumes "store_within_registry s"
  shows "store_within_registry (resume i r s)"
proof -
  have "dom (weatherData (resume i r s)) \<subseteq> set (cities s)"
    using resume_store_cases [of i r s]
  proof
    assume "weatherData (resume i r s) = weatherData s"
    with assms show ?thesis by (simp add: store_within_registry_def)
  next
    assume "\<exists>name cur d fc. i < length (fetches s) \<and> fetches s ! i = AwaitForecast name cur
        \<and> r = Ok d \<and> forecast_of_data d = Inr fc
        \<and> weatherData (resume i r s) = (weatherData s)(name \<mapsto> \<lparr>current = cur, forecast = fc\<rparr>)"
    then obtain name cur fc where h: "i < length (fetches s)"
      "fetches s ! i = AwaitForecast name cur"
      "weatherData (resume i r s) = (weatherData s)(name \<mapsto> \<lparr>current = cur, forecast = fc\<rparr>)"
      by blast
    from h(1,2) have "name \<in> set (in_flight s)" by (auto intro: in_flight_nth)
    with assms h(3) show ?thesis by (auto simp: store_within_registry_def)
  qed
  moreover have "set (in_flight (resume i r s)) \<subseteq> set (cities s)"
    using resume_in_flight [of i r s] assms by (auto simp: store_within_registry_def)
  ultimately show ?thesis by (simp add: store_within_registry_def resume_cities)
qed

lemma inv_addCity:
  "store_within_registry s \<Longrightarrow> store_within_registry (addCity name s)"
  by (auto simp: store_within_registry_def set_in_flight entry_defs)

lemma inv_removeCity:
  "store_within_registry s \<Longrightarrow> x \<notin> set (in_flight s) \<Longrightarrow> store_within_registry (removeCity x s)"
  by (auto simp: store_within_registry_def set_in_flight entry_defs split: if_splits)

lemma inv_run:
  "store_within_registry s \<Longrightarrow> removals_after_fetches acts s \<Longrightarrow>
   store_within_registry (run acts s)"
proof (induction acts arbitrary: s)
  case Nil
  then show ?case by simp
next
  case (Cons a acts)
  have "store_within_registry (perform a s)"
  proof (cases a)
    case (AddCity n)
    with Cons.prems show ?thesis by (simp add: inv_addCity)
  next
    case (RemoveCity x)
    with Cons.prems show ?thesis by (simp add: inv_removeCity)
  next
    case (Settle i r)
    with Cons.prems show ?thesis by (simp add: inv_resume)
  qed
  with Cons show ?case by simp
qed

lemma inv_init: "store_within_registry init"
  by (simp add: store_within_registry_def init_def in_flight_def)

lemma perform_store_appears:
  "weatherData s x = None \<Longrightarrow> \<not> completes_fetch x a s \<Longrightarrow> weatherData (perform a s) x = None"
proof (cases a)
  case (AddCity n)
  assume "weatherData s x = None"
  with AddCity show ?thesis by (simp add: entry_defs)
next
  case (RemoveCity y)
  assume "weatherData s x = None"
  with RemoveCity show ?thesis by (simp add: entry_defs)
next
  case (Settle i r)
  assume h: "weatherData s x = None" "\<not> completes_fetch x a s"
  from resume_store_cases [of i r s] show ?thesis
  proof
    assume "weatherData (resume i r s) = weatherData s"
    with h Settle show ?thesis by simp
  next
    assume "\<exists>name cur d fc. i < length (fetches s) \<and> fetches s ! i = AwaitForecast name cur
        \<and> r = Ok d \<and> forecast_of_data d = Inr fc
        \<and> weatherData (resume i r s) = (weatherData s)(name \<mapsto> \<lparr>current = cur, forecast = fc\<rparr>)"
    then obtain name cur d fc where e: "i < length (fetches s)"
      "fetches s ! i = AwaitForecast name cur" "r = Ok d"
      "weatherData (resume i r s) = (weatherData s)(name \<mapsto> \<lparr>current = cur, forecast = fc\<rparr>)"
      by blast
    from h(2) Settle e(1,2,3) have "name \<noteq> x" by auto
    with e(4) h(1) Settle show ?thesis by simp
  qed
qed

lemma run_store_absent:
  "weatherData s x = None \<Longrightarrow> no_completion x acts s \<Longrightarrow> weatherData (run acts s) x = None"
  by (induction acts arbitrary: s) (simp_all add: perform_store_appears)

text \<open>
  C1, as the code has it. \<open>removeCity x\<close> takes \<open>x\<close> out of the registry and out of the
  store in one step, and no later read of the store gives an entry for \<open>x\<close> until the
  second lookup of some fetch for \<open>x\<close> succeeds; that fetch may have been started before
  the removal. Every key of the store is in the registry in every state reached by a run
  from the empty state in which no city is removed while a fetch for it is in flight.
\<close>

theorem removeCity_store:
  "x \<notin> set (cities (removeCity x s)) \<and> weatherData (removeCity x s) x = None
   \<and> (no_completion x acts (removeCity x s) \<longrightarrow>
        weatherData (run acts (removeCity x s)) x = None)
   \<and> (removals_after_fetches acts init \<and> weatherData (run acts init) k \<noteq> None \<longrightarrow>
        k \<in> set (cities (run acts init)))"
proof -
  have 1: "x \<notin> set (cities (removeCity x s)) \<and> weatherData (removeCity x s) x = None"
    by (simp add: entry_defs)
  have 2: "no_completion x acts (removeCity x s) \<longrightarrow>
        weatherData (run acts (removeCity x s)) x = None"
    using 1 by (simp add: run_store_absent)
  have 3: "removals_after_fetches acts init \<and> weatherData (run acts init) k \<noteq> None \<longrightarrow>
        k \<in> set (cities (run acts init))"
    using inv_run [OF inv_init, of acts] by (auto simp: store_within_registry_def)
  from 1 2 3 show ?thesis by blast
qed

theorem removeCity_store_witness:
  "no_completion ''Oslo'' [AddCity ''Oslo'', Settle 1 NetworkError]
     (removeCity ''Oslo''
        (run [AddCity ''Oslo'', Settle 0 (Ok JNull), Settle 0 (Ok example_forecast_data)] init))
   \<and> weatherData
        (run [AddCity ''Oslo'', Settle 0 (Ok JNull), Settle 0 (Ok example_forecast_data)] init)
        ''Oslo'' \<noteq> None
   \<and> weatherData (run [AddCity ''Oslo'', Settle 1 NetworkError]
        (removeCity ''Oslo''
          (run [AddCity ''Oslo'', Settle 0 (Ok JNull), Settle 0 (Ok example_forecast_data)] init)))
        ''Oslo'' = None
   \<and> removals_after_fetches
        [AddCity ''Oslo'', Settle 0 (Ok JNull), Settle 0 (Ok example_forecast_data),
         AddCity ''Rome'', Settle 1 (Ok JNull), Settle 1 (Ok example_forecast_data),
         RemoveCity ''Oslo''] init
   \<and> weatherData (run
        [AddCity ''Oslo'', Settle 0 (Ok JNull), Settle 0 (Ok example_forecast_data),
         AddCity ''Rome'', Settle 1 (Ok JNull), Settle 1 (Ok example_forecast_data),
         RemoveCity ''Oslo''] init) ''Rome'' \<noteq> None
   \<and> ''Rome'' \<in> set (cities (run
        [AddCity ''Oslo'', Settle 0 (Ok JNull), Settle 0 (Ok example_forecast_data),
         AddCity ''Rome'', Settle 1 (Ok JNull), Settle 1 (Ok example_forecast_data),
         RemoveCity ''Oslo''] init))"
proof -
  have a: "no_completion ''Oslo'' [AddCity ''Oslo'', Settle 1 NetworkError]
     (removeCity ''Oslo''
        (run [AddCity ''Oslo'', Settle 0 (Ok JNull), Settle 0 (Ok example_forecast_data)] init))"
    by code_simp
  have b: "weatherData
        (run [AddCity ''Oslo'', Settle 0 (Ok JNull), Settle 0 (Ok example_forecast_data)] init)
        ''Oslo'' \<noteq> None"
    by code_simp
  have c: "removals_after_fetches
        [AddCity ''Oslo'', Settle 0 (Ok JNull), Settle 0 (Ok example_forecast_data),
         AddCity ''Rome'', Settle 1 (Ok JNull), Settle 1 (Ok example_forecast_data),
         RemoveCity ''Oslo''] init"
    by code_simp
  have d: "weatherData (run
        [AddCity ''Oslo'', Settle 0 (Ok JNull), Settle 0 (Ok example_forecast_data),
         AddCity ''Rome'', Settle 1 (Ok JNull), Settle 1 (Ok example_forecast_data),
         RemoveCity ''Oslo''] init) ''Rome'' \<noteq> None"
    by code_simp
  from a b c d
    removeCity_store [of "''Oslo''"
      "run [AddCity ''Oslo'', Settle 0 (Ok JNull), Settle 0 (Ok example_forecast_data)] init"
      "[AddCity ''Oslo'', Settle 1 NetworkError]"]
    removeCity_store [of _ _
      "[AddCity ''Oslo'', Settle 0 (Ok JNull), Settle 0 (Ok example_forecast_data),
         AddCity ''Rome'', Settle 1 (Ok JNull), Settle 1 (Ok example_forecast_data),
         RemoveCity ''Oslo'']" "''Rome''"]
  show ?thesis by blast
qed

text \<open>
  The claim as worded fails: a fetch started before the removal of its city writes the
  store when it completes after it, and the store then has a key that the registry lacks.
\<close>

theorem stale_fetch_counterexample:
  "weatherData (run [AddCity ''Oslo'', RemoveCity ''Oslo'', Settle 0 (Ok JNull),
      Settle 0 (Ok example_forecast_data)] init) ''Oslo'' \<noteq> None
   \<and> ''Oslo'' \<notin> set (cities (run [AddCity ''Oslo'', RemoveCity ''Oslo'', Settle 0 (Ok JNull),
      Settle 0 (Ok example_forecast_data)] init))"
  by code_simp

section \<open>The registry over runs\<close>

lemma cities_addCity:
  "cities (addCity n s) =
     (if n \<noteq> [] \<and> n \<notin> set (cities s) then cities s @ [n] else cities s)"
  by (simp add: addCity_def handleAddCity_def handleInputChange_def fetchWeather_def)

lemma cities_removeCity: "cities (removeCity y s) = filter (\<lambda>c. c \<noteq> y) (cities s)"
  by (simp add: removeCity_def handleDeleteCity_def)

lemmas cities_perform = cities_addCity cities_removeCity resume_cities

lemma distinct_cities_perform: "distinct (cities s) \<Longrightarrow> distinct (cities (perform a s))"
  by (cases a) (simp_all add: cities_perform)

lemma distinct_cities_run: "distinct (cities s) \<Longrightarrow> distinct (cities (run acts s))"
  by (induction acts arbitrary: s) (simp_all add: distinct_cities_perform)

lemma spec_present_snoc:
  "spec_present (acts @ [a]) x =
     (if a = AddCity x then x \<noteq> [] else if a = RemoveCity x then False
      else spec_present acts x)"
  by (cases a) (auto simp: spec_present_def)

lemma spec_present_nonempty: "spec_present acts x \<Longrightarrow> x \<noteq> []"
  by (auto simp: spec_present_def split: option.splits action.splits)

lemma cities_present: "x \<in> set (cities (run acts init)) \<longleftrightarrow> spec_present acts x"
proof (induction acts rule: rev_induct)
  case Nil
  show ?case by (simp add: init_def spec_present_def)
next
  case (snoc a acts)
  show ?case
  proof (cases a)
    case (AddCity n)
    with snoc spec_present_nonempty [of acts x] show ?thesis
      by (auto simp: run_snoc cities_perform spec_present_snoc)
  next
    case (RemoveCity y)
    with snoc show ?thesis
      by (auto simp: run_snoc cities_perform spec_present_snoc)
  next
    case (Settle i r)
    with snoc show ?thesis
      by (auto simp: run_snoc cities_perform spec_present_snoc)
  qed
qed

lemma spec_registry_live: "spec_registry acts = concat (map (spec_live_add acts) [0..<length acts])"
  by (simp add: spec_registry_def)

lemma spec_live_add_old:
  "i < length acts \<Longrightarrow>
   spec_live_add (acts @ [a]) i = filter (\<lambda>x. RemoveCity x \<noteq> a) (spec_live_add acts i)"
  by (auto simp: spec_live_add_def nth_append split: action.splits)

lemma spec_live_add_new:
  "spec_live_add (acts @ [a]) (length acts) =
     (case a of AddCity x \<Rightarrow> if x \<noteq> [] \<and> \<not> spec_present acts x then [x] else []
      | _ \<Rightarrow> [])"
  by (auto simp: spec_live_add_def split: action.splits)

lemma spec_registry_snoc:
  "spec_registry (acts @ [a]) =
     filter (\<lambda>x. RemoveCity x \<noteq> a) (spec_registry acts)
     @ (case a of AddCity x \<Rightarrow> if x \<noteq> [] \<and> \<not> spec_present acts x then [x] else []
        | _ \<Rightarrow> [])"
proof -
  let ?P = "\<lambda>x. RemoveCity x \<noteq> a"
  have m: "map (spec_live_add (acts @ [a])) [0..<length acts]
      = map (\<lambda>i. filter ?P (spec_live_add acts i)) [0..<length acts]"
    by (rule map_cong) (simp_all add: spec_live_add_old)
  have "concat (map (spec_live_add (acts @ [a])) [0..<length acts])
      = concat (map (filter ?P) (map (spec_live_add acts) [0..<length acts]))"
    unfolding m by (simp add: comp_def)
  also have "\<dots> = filter ?P (spec_registry acts)"
    by (simp add: spec_registry_live filter_concat)
  finally show ?thesis
    by (simp add: spec_registry_live spec_live_add_new)
qed

lemma cities_spec_registry: "cities (run acts init) = spec_registry acts"
proof (induction acts rule: rev_induct)
  case Nil
  show ?case by (simp add: init_def spec_registry_def)
next
  case (snoc a acts)
  show ?case
  proof (cases a)
    case (AddCity n)
    with snoc cities_present [of n acts] show ?thesis
      by (simp add: run_snoc cities_perform spec_registry_snoc)
  next
    case (RemoveCity y)
    have "(\<lambda>x. RemoveCity x \<noteq> RemoveCity y) = (\<lambda>x. x \<noteq> y)" by auto
    with RemoveCity snoc show ?thesis
      by (simp add: run_snoc cities_perform spec_registry_snoc)
  next
    case (Settle i r)
    with snoc show ?thesis
      by (simp add: run_snoc cities_perform spec_registry_snoc)
  qed
qed

text \<open>
  C4. After any finite sequence of \<open>addCity\<close> and \<open>removeCity\<close> calls from the empty
  state, with fetch completions anywhere in between, the registry has no duplicates and is
  the sequence of the names added with success and not removed since, in the order of
  those additions; a name is in it exactly when the latest call naming it is an
  \<open>addCity\<close> and the name is not empty.
\<close>

theorem registry_is_adds_minus_removes:
  "distinct (cities (run acts init))
   \<and> cities (run acts init) = spec_registry acts
   \<and> (x \<in> set (cities (run acts init)) \<longleftrightarrow> spec_present acts x)"
proof -
  have "distinct (cities init)" by (simp add: init_def)
  then have "distinct (cities (run acts init))" by (rule distinct_cities_run)
  with cities_spec_registry [of acts] cities_present [of x acts] show ?thesis by simp
qed

theorem registry_is_adds_minus_removes_witness:
  "cities (run [AddCity ''a'', AddCity ''b'', RemoveCity ''a'', Settle 0 NetworkError,
      AddCity ''a'', AddCity ''b'', AddCity []] init) = [''b'', ''a'']
   \<and> spec_registry [AddCity ''a'', AddCity ''b'', RemoveCity ''a'', Settle 0 NetworkError,
      AddCity ''a'', AddCity ''b'', AddCity []] = [''b'', ''a'']
   \<and> ''a'' \<in> set (cities (run [AddCity ''a'', AddCity ''b'', RemoveCity ''a'',
      Settle 0 NetworkError, AddCity ''a'', AddCity ''b'', AddCity []] init))"
proof -
  let ?acts = "[AddCity ''a'', AddCity ''b'', RemoveCity ''a'', Settle 0 NetworkError,
      AddCity ''a'', AddCity ''b'', AddCity []]"
  have a: "spec_registry ?acts = [''b'', ''a'']"
    by code_simp
  have b: "spec_present ?acts ''a''"
    by code_simp
  from a b registry_is_adds_minus_removes [of ?acts "''a''"]
  show ?thesis by simp
qed

section \<open>Grouping the forecast by day\<close>

lemma set_first_seen [simp]: "set (spec_first_seen xs) = set xs"
  by (induction xs) auto

lemma distinct_first_seen [simp]: "distinct (spec_first_seen xs)"
  by (induction xs) auto

lemma first_seen_snoc:
  "spec_first_seen (xs @ [x]) =
     (if x \<in> set xs then spec_first_seen xs else spec_first_seen xs @ [x])"
proof (induction xs)
  case Nil
  show ?case by simp
next
  case (Cons y ys)
  have "filter (\<lambda>z. z \<noteq> y) (spec_first_seen ys) = spec_first_seen ys" if "x = y" "x \<notin> set ys"
    using that by (auto simp: filter_id_conv)
  with Cons show ?case by auto
qed

lemma length_first_seen: "length (spec_first_seen xs) = card (set xs)"
proof -
  have "card (set (spec_first_seen xs)) = length (spec_first_seen xs)"
    by (rule distinct_card) simp
  then show ?thesis by simp
qed

lemma group_step_grouped:
  fixes f :: "jsdate \<Rightarrow> string"
  defines "G \<equiv> \<lambda>fc d. (d, filter (\<lambda>p. f (date p) = d) fc)"
  assumes "set days = (\<lambda>p. f (date p)) ` set fc"
  shows "group_step f (map (G fc) days) item =
           map (G (fc @ [item]))
             (if f (date item) \<in> set days then days else days @ [f (date item)])"
proof -
  let ?d = "f (date item)"
  let ?h = "\<lambda>(k, v). if k = ?d then (k, v @ [item]) else (k, v)"
  have key: "map_of (map (G fc) days) ?d = None \<longleftrightarrow> ?d \<notin> set days"
    by (auto simp: G_def map_of_eq_None_iff image_iff)
  have h: "?h (G fc d) = G (fc @ [item]) d" for d
    by (simp add: G_def)
  have new: "G fc ?d = (?d, [])" if "?d \<notin> set days"
  proof -
    have "f (date p) \<noteq> ?d" if "p \<in> set fc" for p
      using that \<open>?d \<notin> set days\<close> assms(2) by (metis image_eqI)
    then show ?thesis by (simp add: G_def filter_empty_conv)
  qed
  show ?thesis
  proof (cases "?d \<in> set days")
    case True
    then have "group_step f (map (G fc) days) item = map ?h (map (G fc) days)"
      using key by (simp add: group_step_def Let_def)
    also have "\<dots> = map (G (fc @ [item])) days"
      using h by (simp add: comp_def)
    finally show ?thesis using True by simp
  next
    case False
    then have "group_step f (map (G fc) days) item = map ?h (map (G fc) days @ [(?d, [])])"
      using key by (simp add: group_step_def Let_def)
    also have "\<dots> = map ?h (map (G fc) (days @ [?d]))"
      using new [OF False] by simp
    also have "\<dots> = map (G (fc @ [item])) (days @ [?d])"
      using h by (simp add: comp_def)
    finally show ?thesis using False by simp
  qed
qed

lemma groupedForecast_eq:
  "groupedForecast f fc =
     map (\<lambda>d. (d, filter (\<lambda>p. f (date p) = d) fc))
       (spec_first_seen (map (\<lambda>p. f (date p)) fc))"
proof (induction fc rule: rev_induct)
  case Nil
  show ?case by (simp add: groupedForecast_def)
next
  case (snoc item fc)
  let ?days = "spec_first_seen (map (\<lambda>p. f (date p)) fc)"
  have s: "set ?days = (\<lambda>p. f (date p)) ` set fc" by simp
  have "groupedForecast f (fc @ [item]) = group_step f (groupedForecast f fc) item"
    by (simp add: groupedForecast_def)
  also have "\<dots> = map (\<lambda>d. (d, filter (\<lambda>p. f (date p) = d) (fc @ [item])))
             (if f (date item) \<in> set ?days then ?days else ?days @ [f (date item)])"
    unfolding snoc.IH by (rule group_step_grouped [OF s])
  also have "(if f (date item) \<in> set ?days then ?days else ?days @ [f (date item)])
    = spec_first_seen (map (\<lambda>p. f (date p)) (fc @ [item]))"
    by (simp add: first_seen_snoc)
  finally show ?case .
qed

text \<open>
  C8. The grouping has one group per calendar day of the forecast, in the order in which
  the days first occur; the group of a day holds exactly the points of that day, in
  their order in the input, so two points are in the same group exactly when they share
  the day; a forecast that spans two days gives two groups.
\<close>

theorem groupedForecast_by_day:
  "groupedForecast f fc =
     map (\<lambda>d. (d, filter (\<lambda>p. f (date p) = d) fc))
       (spec_first_seen (map (\<lambda>p. f (date p)) fc))
   \<and> map fst (groupedForecast f fc) = spec_first_seen (map (\<lambda>p. f (date p)) fc)
   \<and> distinct (map fst (groupedForecast f fc))
   \<and> (\<forall>(d, items) \<in> set (groupedForecast f fc).
        items \<noteq> [] \<and> items = filter (\<lambda>p. f (date p) = d) fc)
   \<and> (\<forall>p \<in> set fc. \<exists>items. (f (date p), items) \<in> set (groupedForecast f fc) \<and> p \<in> set items)
   \<and> (\<forall>p \<in> set fc. \<forall>q \<in> set fc.
        (\<exists>d items. (d, items) \<in> set (groupedForecast f fc) \<and> p \<in> set items \<and> q \<in> set items)
        \<longleftrightarrow> f (date p) = f (date q))
   \<and> length (groupedForecast f fc) = card ((\<lambda>p. f (date p)) ` set fc)
   \<and> (card ((\<lambda>p. f (date p)) ` set fc) = 2 \<longrightarrow> length (groupedForecast f fc) = 2)"
proof -
  let ?days = "spec_first_seen (map (\<lambda>p. f (date p)) fc)"
  note eq = groupedForecast_eq [of f fc]
  have 1: "map fst (groupedForecast f fc) = ?days"
    unfolding eq by (simp add: comp_def)
  have 2: "distinct (map fst (groupedForecast f fc))"
    unfolding 1 by simp
  have 3: "\<forall>(d, items) \<in> set (groupedForecast f fc).
        items \<noteq> [] \<and> items = filter (\<lambda>p. f (date p) = d) fc"
    unfolding eq by (auto simp: filter_empty_conv)
  have 4: "\<forall>p \<in> set fc. \<exists>items. (f (date p), items) \<in> set (groupedForecast f fc) \<and> p \<in> set items"
    unfolding eq by (auto simp: image_iff)
  have 5: "\<forall>p \<in> set fc. \<forall>q \<in> set fc.
        (\<exists>d items. (d, items) \<in> set (groupedForecast f fc) \<and> p \<in> set items \<and> q \<in> set items)
        \<longleftrightarrow> f (date p) = f (date q)"
  proof (intro ballI iffI)
    fix p q
    assume "p \<in> set fc" "q \<in> set fc"
      "\<exists>d items. (d, items) \<in> set (groupedForecast f fc) \<and> p \<in> set items \<and> q \<in> set items"
    then obtain d items where g: "(d, items) \<in> set (groupedForecast f fc)"
      "p \<in> set items" "q \<in> set items" by blast
    from 3 g(1) have "items = filter (\<lambda>p. f (date p) = d) fc" by blast
    with g(2,3) show "f (date p) = f (date q)" by simp
  next
    fix p q
    assume pq: "p \<in> set fc" "q \<in> set fc" "f (date p) = f (date q)"
    from 4 pq(1) obtain items where g: "(f (date p), items) \<in> set (groupedForecast f fc)"
      by blast
    with 3 have "items = filter (\<lambda>r. f (date r) = f (date p)) fc" by blast
    with pq have "p \<in> set items \<and> q \<in> set items" by simp
    with g show "\<exists>d items. (d, items) \<in> set (groupedForecast f fc) \<and> p \<in> set items
      \<and> q \<in> set items" by blast
  qed
  have 6: "length (groupedForecast f fc) = card ((\<lambda>p. f (date p)) ` set fc)"
    unfolding eq by (simp add: length_first_seen)
  from eq 1 2 3 4 5 6 show ?thesis by simp
qed

theorem groupedForecast_by_day_witness:
  "(''1/1/1970'', [example_point 0 18, example_point 75600 15])
     \<in> set (groupedForecast example_date_string
          [example_point 0 18, example_point 86400 12, example_point 75600 15])
   \<and> example_point 0 18
       \<in> set [example_point 0 18, example_point 86400 12, example_point 75600 15]
   \<and> example_point 75600 15
       \<in> set [example_point 0 18, example_point 86400 12, example_point 75600 15]
   \<and> card ((\<lambda>p. example_date_string (date p))
        ` set [example_point 0 18, example_point 86400 12, example_point 75600 15]) = 2
   \<and> [example_point 0 18, example_point 75600 15]
       = filter (\<lambda>p. example_date_string (date p) = ''1/1/1970'')
           [example_point 0 18, example_point 86400 12, example_point 75600 15]
   \<and> (\<exists>items. (example_date_string (date (example_point 0 18)), items)
          \<in> set (groupedForecast example_date_string
               [example_point 0 18, example_point 86400 12, example_point 75600 15])
        \<and> example_point 0 18 \<in> set items)
   \<and> example_date_string (date (example_point 0 18))
       = example_date_string (date (example_point 75600 15))
   \<and> map fst (groupedForecast example_date_string
        [example_point 0 18, example_point 86400 12, example_point 75600 15])
       = [''1/1/1970'', ''1/2/1970'']
   \<and> length (groupedForecast example_date_string
        [example_point 0 18, example_point 86400 12, example_point 75600 15]) = 2"
proof -
  let ?p = "example_point 0 18"
  let ?q = "example_point 75600 15"
  let ?fc = "[?p, example_point 86400 12, ?q]"
  let ?g = "groupedForecast example_date_string ?fc"
  note t = groupedForecast_by_day [of example_date_string ?fc]
  have a: "(''1/1/1970'', [?p, ?q]) \<in> set ?g"
    by code_simp
  have b: "?p \<in> set ?fc"
    by simp
  have b': "?q \<in> set ?fc"
    by simp
  have "(\<lambda>p. example_date_string (date p)) ` set ?fc = {''1/1/1970'', ''1/2/1970''}"
    by (auto simp: example_point_def)
  then have c: "card ((\<lambda>p. example_date_string (date p)) ` set ?fc) = 2"
    by simp
  have d: "spec_first_seen (map (\<lambda>p. example_date_string (date p)) ?fc)
    = [''1/1/1970'', ''1/2/1970'']"
    by code_simp
  from t have t3: "\<forall>(d, items) \<in> set ?g.
      items \<noteq> [] \<and> items = filter (\<lambda>p. example_date_string (date p) = d) ?fc"
    by (elim conjE)
  from bspec [OF t3 a] have e: "[?p, ?q]
       = filter (\<lambda>p. example_date_string (date p) = ''1/1/1970'') ?fc"
    by (simp only: prod.case)
  from t have t4: "\<forall>p \<in> set ?fc. \<exists>items.
      (example_date_string (date p), items) \<in> set ?g \<and> p \<in> set items"
    by (elim conjE)
  from bspec [OF t4 b] have f: "\<exists>items.
      (example_date_string (date ?p), items) \<in> set ?g \<and> ?p \<in> set items" .
  from t have t5: "\<forall>p \<in> set ?fc. \<forall>q \<in> set ?fc.
      (\<exists>d items. (d, items) \<in> set ?g \<and> p \<in> set items \<and> q \<in> set items)
      \<longleftrightarrow> example_date_string (date p) = example_date_string (date q)"
    by (elim conjE)
  have "\<exists>d items. (d, items) \<in> set ?g \<and> ?p \<in> set items \<and> ?q \<in> set items"
    using a by (intro exI [of _ "''1/1/1970''"] exI [of _ "[?p, ?q]"]) simp
  with bspec [OF bspec [OF t5 b] b']
  have g: "example_date_string (date ?p) = example_date_string (date ?q)"
    by (rule iffD1)
  from t have t2: "map fst ?g = spec_first_seen (map (\<lambda>p. example_date_string (date p)) ?fc)"
    by (elim conjE)
  from t have t7: "card ((\<lambda>p. example_date_string (date p)) ` set ?fc) = 2
      \<longrightarrow> length ?g = 2"
    by (elim conjE)
  from t2 d have h: "map fst ?g = [''1/1/1970'', ''1/2/1970'']"
    by (simp only:)
  from t7 c have i: "length ?g = 2"
    by (rule mp)
  from a b b' c e f g h i show ?thesis by (intro conjI)
qed

end
